theory Spec2Isabelle
  imports Complex_Main
begin

text \<open>
  A model of the two stateful parts of the Tolinku web SDK: the HTTP client with its
  retry loop, backoff delays and cancellation, and the analytics event batcher with
  its queue, flush timer and teardown path. Promises are modelled by their outcomes:
  a sum value \<open>Inl\<close> for a rejection or a thrown value, \<open>Inr\<close> for a result. An
  asynchronous method is cut at its \<^verbatim>\<open>await\<close>: one function for the part that runs
  before it and one for the part that runs after, so that other calls can come in
  between.
\<close>

section \<open>The HTTP client (client.ts)\<close>

subsection \<open>JavaScript values the client handles\<close>

text \<open>
  A JavaScript number as far as \<^verbatim>\<open>computeDelay\<close> can tell numbers apart: not-a-number,
  the two infinities, or a finite value. Finite values are exact reals: the rounding of
  doubles is not modelled.
\<close>

datatype js_number = NaN | NegInfinity | Num real | PosInfinity

fun isNaN :: "js_number \<Rightarrow> bool" where
  "isNaN NaN = True"
| "isNaN _ = False"

text \<open>The comparison \<^verbatim>\<open>seconds > 0\<close>; it is false for NaN.\<close>

fun greaterThanZero :: "js_number \<Rightarrow> bool" where
  "greaterThanZero (Num r) = (0 < r)"
| "greaterThanZero PosInfinity = True"
| "greaterThanZero _ = False"

text \<open>The product \<^verbatim>\<open>seconds * 1000\<close>.\<close>

fun times1000 :: "js_number \<Rightarrow> js_number" where
  "times1000 (Num r) = Num (r * 1000)"
| "times1000 n = n"

text \<open>
  Values that are thrown, or that a promise rejects with. \<open>AbortError\<close> is the
  DOMException named AbortError; \<open>TransportError\<close> is any other rejection of
  \<^verbatim>\<open>fetch\<close>; \<open>Undefined\<close> is the initial value of \<^verbatim>\<open>lastError\<close>;
  \<open>PlainError\<close> is \<^verbatim>\<open>new Error(message)\<close>; \<open>TypeError\<close> is what reading a
  property of \<^verbatim>\<open>null\<close> throws.
\<close>

datatype js_error =
    AbortError
  | TransportError string
  | Undefined
  | TolinkuError string nat "string option"
  | PlainError string
  | TypeError

text \<open>
  A parsed JSON body as the SDK can tell bodies apart. It is \<^verbatim>\<open>null\<close>, of which no
  property can be read, or any other value, given by the properties the SDK reads of
  it: \<^verbatim>\<open>error\<close> and \<^verbatim>\<open>code\<close> of an error body, \<^verbatim>\<open>errors\<close> of a batch result
  (\<open>None\<close> for a property that is undefined, as all three are of a value that is
  not an object).
\<close>

record json_object =
  error :: "string option"
  code :: "string option"
  errors :: "string list option"

datatype json_value = JsonNull | JsonObject json_object

text \<open>
  A \<^verbatim>\<open>Response\<close>: \<open>retryAfter\<close> is \<^verbatim>\<open>headers.get('Retry-After')\<close> (\<open>None\<close> for
  null), \<open>json\<close> is what \<^verbatim>\<open>json()\<close> resolves with (\<open>None\<close> when it rejects).
\<close>

record response =
  status :: nat
  statusText :: string
  retryAfter :: "string option"
  json :: "json_value option"

text \<open>\<^verbatim>\<open>Response.ok\<close>: the status is in the range 200 to 299.\<close>

definition ok :: "response \<Rightarrow> bool" where
  "ok res = (200 \<le> status res \<and> status res \<le> 299)"

definition MAX_RETRIES :: nat where
  "MAX_RETRIES = 3"

definition BASE_DELAY_MS :: real where
  "BASE_DELAY_MS = 500"

definition MAX_JITTER_MS :: real where
  "MAX_JITTER_MS = 250"

subsection \<open>The surroundings of one logical request\<close>

text \<open>
  What one call of \<^verbatim>\<open>fetchWithRetry\<close> meets, indexed by the attempt number:
  \<^item> \<open>fetch e a\<close>: how the network call of attempt \<open>a\<close> settles (\<open>Inl\<close> a rejection,
    \<open>Inl AbortError\<close> when the signal is aborted while the call is in flight);
  \<^item> \<open>sleepAborted e a\<close>: whether the signal is aborted when the delay after attempt
    \<open>a\<close> starts or before its timer runs out, so that \<^verbatim>\<open>sleep\<close> rejects;
  \<^item> \<open>mathRandom e a\<close>: the value \<^verbatim>\<open>Math.random()\<close> returns in the delay computation
    of attempt \<open>a\<close>;
  \<^item> \<open>toNumber e\<close>: the conversion \<^verbatim>\<open>Number(string)\<close> of the language.
\<close>

record request_env =
  fetch :: "nat \<Rightarrow> js_error + response"
  sleepAborted :: "nat \<Rightarrow> bool"
  mathRandom :: "nat \<Rightarrow> real"
  toNumber :: "string \<Rightarrow> js_number"

text \<open>
  \<^verbatim>\<open>Number\<close> on the strings of ASCII digits, read as a decimal numeral. Every other
  string is outside this fragment and is given \<open>NaN\<close> here; it is used for concrete
  header values such as \<^verbatim>\<open>"2"\<close> and \<^verbatim>\<open>"0"\<close> only.
\<close>

definition isDigit :: "char \<Rightarrow> bool" where
  "isDigit c = (48 \<le> (of_char c :: nat) \<and> (of_char c :: nat) \<le> 57)"

definition digitsToNumber :: "string \<Rightarrow> js_number" where
  "digitsToNumber s =
     (if s \<noteq> [] \<and> list_all isDigit s
      then Num (real (foldl (\<lambda>n c. 10 * n + (of_char c - 48)) 0 s))
      else NaN)"

subsection \<open>computeDelay\<close>

text \<open>
  The delay before the next attempt. A 429 response whose Retry-After header is a
  non-empty string converting to a number that is not NaN and greater than zero gives
  that many seconds; everything else gives the exponential delay plus jitter.
\<close>

definition computeDelay :: "request_env \<Rightarrow> nat \<Rightarrow> response option \<Rightarrow> js_number" where
  "computeDelay e attempt res =
     (let exponential = BASE_DELAY_MS * 2 ^ attempt;
          jitter = mathRandom e attempt * MAX_JITTER_MS;
          fallback = Num (exponential + jitter)
      in case res of
           None \<Rightarrow> fallback
         | Some r \<Rightarrow>
             if status r = 429 then
               (case retryAfter r of
                  None \<Rightarrow> fallback
                | Some h \<Rightarrow>
                    if h \<noteq> [] then
                      (let seconds = toNumber e h
                       in if \<not> isNaN seconds \<and> greaterThanZero seconds
                          then times1000 seconds
                          else fallback)
                    else fallback)
             else fallback)"

subsection \<open>fetchWithRetry\<close>

text \<open>
  What a run of the retry loop did: the value the promise settles with (\<open>Inl\<close> when it
  rejects), the number of network calls made, and the delays slept or begun, in order.
\<close>

record run =
  result :: "js_error + response"
  calls :: nat
  delays :: "js_number list"

text \<open>One more network call, and the delays that followed it, ahead of the rest of a run.\<close>

definition performed :: "js_number list \<Rightarrow> run \<Rightarrow> run" where
  "performed ds r = r\<lparr>calls := Suc (calls r), delays := ds @ delays r\<rparr>"

text \<open>
  The loop \<^verbatim>\<open>for (attempt = 0; attempt <= MAX_RETRIES; attempt++)\<close> from a given attempt
  on, with the current \<^verbatim>\<open>lastError\<close>. Both calls of \<^verbatim>\<open>sleep\<close> reject with the
  AbortError only, which the catch block rethrows and which leaves the catch block as
  it is. After the loop comes \<^verbatim>\<open>throw lastError\<close>.
\<close>

function fetchLoop :: "request_env \<Rightarrow> nat \<Rightarrow> js_error \<Rightarrow> run" where
  "fetchLoop e attempt lastError =
     (if attempt \<le> MAX_RETRIES then
        (case fetch e attempt of
           Inr res \<Rightarrow>
             if ok res \<or> (400 \<le> status res \<and> status res < 500 \<and> status res \<noteq> 429)
             then \<lparr>result = Inr res, calls = 1, delays = []\<rparr>
             else if attempt < MAX_RETRIES then
               (let delay = computeDelay e attempt (Some res)
                in if sleepAborted e attempt
                   then \<lparr>result = Inl AbortError, calls = 1, delays = [delay]\<rparr>
                   else performed [delay] (fetchLoop e (Suc attempt) lastError))
             else \<lparr>result = Inr res, calls = 1, delays = []\<rparr>
         | Inl err \<Rightarrow>
             if err = AbortError
             then \<lparr>result = Inl err, calls = 1, delays = []\<rparr>
             else if attempt < MAX_RETRIES then
               (let delay = computeDelay e attempt None
                in if sleepAborted e attempt
                   then \<lparr>result = Inl AbortError, calls = 1, delays = [delay]\<rparr>
                   else performed [delay] (fetchLoop e (Suc attempt) err))
             else performed [] (fetchLoop e (Suc attempt) err))
      else \<lparr>result = Inl lastError, calls = 0, delays = []\<rparr>)"
  by pat_completeness auto
termination
  by (relation "measure (\<lambda>(e, attempt, lastError). MAX_RETRIES + 1 - attempt)") auto

declare fetchLoop.simps [simp del]

definition fetchWithRetry :: "request_env \<Rightarrow> run" where
  "fetchWithRetry e = fetchLoop e 0 Undefined"

subsection \<open>The request methods\<close>

definition parseJson :: "response \<Rightarrow> js_error + json_value" where
  "parseJson res =
     (case json res of
        Some b \<Rightarrow> Inr b
      | None \<Rightarrow> Inl (TolinkuError ''Invalid JSON in response body'' (status res) None))"

text \<open>
  What \<^verbatim>\<open>post\<close> does with the outcome of \<^verbatim>\<open>fetchWithRetry\<close>; \<^verbatim>\<open>get\<close>,
  \<^verbatim>\<open>getPublic\<close> and \<^verbatim>\<open>postPublic\<close> treat it in the same way and differ in the request
  they build only. For a response that is not ok, \<^verbatim>\<open>data\<close> is the parsed body, or
  an object holding the status text when the body does not parse; reading
  \<^verbatim>\<open>data.error\<close> throws when the body parsed to \<^verbatim>\<open>null\<close>.
\<close>

definition post :: "request_env \<Rightarrow> js_error + json_value" where
  "post e =
     (case result (fetchWithRetry e) of
        Inl err \<Rightarrow> Inl err
      | Inr res \<Rightarrow>
          if \<not> ok res then
            (case (case json res of
                     Some b \<Rightarrow> b
                   | None \<Rightarrow> JsonObject \<lparr>error = Some (statusText res), code = None,
                                          errors = None\<rparr>) of
               JsonNull \<Rightarrow> Inl TypeError
             | JsonObject data \<Rightarrow>
                 (let message = (case error data of
                                   Some m \<Rightarrow> if m \<noteq> [] then m else statusText res
                                 | None \<Rightarrow> statusText res)
                  in Inl (TolinkuError message (status res) (code data))))
          else parseJson res)"

subsection \<open>Notions for stating what a run does\<close>

text \<open>
  After the network call of attempt \<open>a\<close> the loop goes to sleep: attempts remain and
  the call gave a retryable response (neither ok nor a 4xx other than 429) or failed
  with something other than the AbortError.
\<close>

definition sleeps :: "request_env \<Rightarrow> nat \<Rightarrow> bool" where
  "sleeps e a =
     (a < MAX_RETRIES \<and>
      (case fetch e a of
         Inr res \<Rightarrow> \<not> (ok res \<or> (400 \<le> status res \<and> status res < 500 \<and> status res \<noteq> 429))
       | Inl err \<Rightarrow> err \<noteq> AbortError))"

text \<open>Attempt \<open>a\<close> is followed by another attempt: the loop sleeps and the sleep ends.\<close>

definition retried :: "request_env \<Rightarrow> nat \<Rightarrow> bool" where
  "retried e a = (sleeps e a \<and> \<not> sleepAborted e a)"

text \<open>The logical request gets as far as the network call of attempt \<open>k\<close>.\<close>

definition reached :: "request_env \<Rightarrow> nat \<Rightarrow> bool" where
  "reached e k = (k \<le> MAX_RETRIES \<and> list_all (retried e) [0..<k])"

text \<open>The delay computed after attempt \<open>a\<close>, for the response if there is one.\<close>

definition delayAfter :: "request_env \<Rightarrow> nat \<Rightarrow> js_number" where
  "delayAfter e a =
     computeDelay e a (case fetch e a of Inr res \<Rightarrow> Some res | Inl err \<Rightarrow> None)"

text \<open>The calls and delays of the attempts below \<open>k\<close>, ahead of the rest of a run.\<close>

fun ahead :: "request_env \<Rightarrow> nat \<Rightarrow> run \<Rightarrow> run" where
  "ahead e 0 r = r"
| "ahead e (Suc k) r = ahead e k (performed [delayAfter e k] r)"

subsection \<open>Example requests\<close>

text \<open>
  Call number \<open>a\<close> is answered with status \<open>500 + a\<close>; no abort, and
  \<^verbatim>\<open>Math.random()\<close> returns zero.
\<close>

definition serverErrors :: request_env where
  "serverErrors =
     \<lparr>fetch = (\<lambda>a. Inr \<lparr>status = 500 + a, statusText = ''Error'', retryAfter = None,
                          json = None\<rparr>),
      sleepAborted = (\<lambda>a. False),
      mathRandom = (\<lambda>a. 0),
      toNumber = digitsToNumber\<rparr>"

text \<open>
  Every call is answered 429 with the given Retry-After header; \<^verbatim>\<open>Math.random()\<close>
  returns one half.
\<close>

definition rateLimited :: "string \<Rightarrow> request_env" where
  "rateLimited h =
     \<lparr>fetch = (\<lambda>a. Inr \<lparr>status = 429, statusText = ''Too Many Requests'',
                          retryAfter = Some h, json = None\<rparr>),
      sleepAborted = (\<lambda>a. False),
      mathRandom = (\<lambda>a. 1 / 2),
      toNumber = digitsToNumber\<rparr>"


text \<open>
  The first call is answered 503 and the signal is aborted during the delay that
  follows; any further call would be answered 200.
\<close>

definition abortedInDelay :: request_env where
  "abortedInDelay =
     \<lparr>fetch = (\<lambda>a. Inr \<lparr>status = (if a = 0 then 503 else 200), statusText = ''Error'',
                          retryAfter = None, json = None\<rparr>),
      sleepAborted = (\<lambda>a. a = 0),
      mathRandom = (\<lambda>a. 0),
      toNumber = digitsToNumber\<rparr>"


text \<open>Every call is answered 500 with the body \<^verbatim>\<open>null\<close>.\<close>

definition serverErrorsNullBody :: request_env where
  "serverErrorsNullBody =
     \<lparr>fetch = (\<lambda>a. Inr \<lparr>status = 500, statusText = ''Internal Server Error'',
                          retryAfter = None, json = Some JsonNull\<rparr>),
      sleepAborted = (\<lambda>a. False),
      mathRandom = (\<lambda>a. 0),
      toNumber = digitsToNumber\<rparr>"

section \<open>The event batcher (analytics.ts)\<close>

subsection \<open>State\<close>

definition BATCH_SIZE :: nat where
  "BATCH_SIZE = 10"

definition MAX_QUEUE_SIZE :: nat where
  "MAX_QUEUE_SIZE = 1000"

text \<open>
  The interface \<^verbatim>\<open>TrackProperties\<close> of types.ts: string keys, each with a string or
  with \<^verbatim>\<open>undefined\<close> (\<open>None\<close>).
\<close>

type_synonym TrackProperties = "(string \<times> string option) list"

record QueuedEvent =
  event_type :: string
  properties :: TrackProperties

text \<open>The handle of the pending flush timer, and the registered unload listener.\<close>

datatype timeout = Timeout

datatype listener = Listener

record analytics =
  queue :: "QueuedEvent list"
  flushTimer :: "timeout option"
  unloadHandler :: "listener option"

text \<open>The constructor; the argument says whether \<^verbatim>\<open>window\<close> is defined.\<close>

definition newAnalytics :: "bool \<Rightarrow> analytics" where
  "newAnalytics hasWindow =
     \<lparr>queue = [], flushTimer = None,
      unloadHandler = (if hasWindow then Some Listener else None)\<rparr>"

subsection \<open>Strings\<close>

text \<open>
  A string is a list of code units, here the ones below 256. Of the white space and
  line terminators that \<^verbatim>\<open>trim\<close> removes these are tab, line feed, vertical tab, form
  feed, carriage return, space and no-break space.
\<close>

definition isWhiteSpace :: "char \<Rightarrow> bool" where
  "isWhiteSpace c = ((of_char c :: nat) \<in> {9, 10, 11, 12, 13, 32, 160})"

definition trim :: "string \<Rightarrow> string" where
  "trim s = rev (dropWhile isWhiteSpace (rev (dropWhile isWhiteSpace s)))"

definition startsWith :: "string \<Rightarrow> string \<Rightarrow> bool" where
  "startsWith s p = (take (length p) s = p)"

text \<open>The class \<^verbatim>\<open>[a-z0-9_]\<close>.\<close>

definition isNameChar :: "char \<Rightarrow> bool" where
  "isNameChar c =
     (let n = (of_char c :: nat)
      in (97 \<le> n \<and> n \<le> 122) \<or> (48 \<le> n \<and> n \<le> 57) \<or> n = 95)"

text \<open>\<^verbatim>\<open>/^custom\.[a-z0-9_]+$/.test(s)\<close>\<close>

definition eventNameRegex_test :: "string \<Rightarrow> bool" where
  "eventNameRegex_test s =
     (take 7 s = ''custom.'' \<and> drop 7 s \<noteq> [] \<and> list_all isNameChar (drop 7 s))"

subsection \<open>track and flush\<close>

text \<open>
  An argument of \<^verbatim>\<open>track\<close> as \<^verbatim>\<open>typeof\<close> sees it: a string, or something else.
\<close>

datatype js_arg = Str string | NotAString

text \<open>
  How far a call gets in one turn of the event loop: it throws, it runs to its end,
  or it stops at \<^verbatim>\<open>await this.client.post(...)\<close> with the batch it sent.
\<close>

datatype progress = Throws js_error | Returns | Awaits "QueuedEvent list"

text \<open>\<^verbatim>\<open>flush\<close> up to the await: the timer is cleared and the queue is drained.\<close>

definition flush_start :: "analytics \<Rightarrow> progress \<times> analytics" where
  "flush_start s =
     (let s1 = (if flushTimer s \<noteq> None then s\<lparr>flushTimer := None\<rparr> else s)
      in if length (queue s1) = 0 then (Returns, s1)
         else (let events = queue s1 in (Awaits events, s1\<lparr>queue := []\<rparr>)))"

text \<open>
  What the \<^verbatim>\<open>try\<close> block of \<^verbatim>\<open>flush\<close> throws, if anything: what the POST was
  rejected with, or the TypeError of reading \<^verbatim>\<open>result.errors\<close> when the POST
  resolved with \<^verbatim>\<open>null\<close>. For any other result the block at most logs a warning.
\<close>

definition tryBlock :: "js_error + json_value \<Rightarrow> js_error option" where
  "tryBlock outcome =
     (case outcome of
        Inl err \<Rightarrow> Some err
      | Inr JsonNull \<Rightarrow> Some TypeError
      | Inr (JsonObject res) \<Rightarrow> None)"

text \<open>
  \<^verbatim>\<open>flush\<close> from the await on, at the state the object has by then. Whatever the
  \<^verbatim>\<open>try\<close> block throws is caught: the events are put back in front and the queue
  is cut to its last \<open>MAX_QUEUE_SIZE\<close> entries.
\<close>

definition flush_resume ::
  "js_error + json_value \<Rightarrow> QueuedEvent list \<Rightarrow> analytics \<Rightarrow> progress \<times> analytics" where
  "flush_resume outcome events s =
     (case tryBlock outcome of
        None \<Rightarrow> (Returns, s)
      | Some caught \<Rightarrow>
          (let s1 = s\<lparr>queue := events @ queue s\<rparr>;
               s2 = (if length (queue s1) > MAX_QUEUE_SIZE
                     then s1\<lparr>queue := drop (length (queue s1) - MAX_QUEUE_SIZE) (queue s1)\<rparr>
                     else s1)
           in (Returns, s2)))"

text \<open>A whole call of \<^verbatim>\<open>flush\<close> with nothing else happening while it waits.\<close>

definition flush :: "js_error + json_value \<Rightarrow> analytics \<Rightarrow> progress \<times> analytics" where
  "flush outcome s =
     (case flush_start s of
        (Awaits events, s1) \<Rightarrow> flush_resume outcome events s1
      | (p, s1) \<Rightarrow> (p, s1))"

definition emptyNameMessage :: string where
  "emptyNameMessage = ''Tolinku: event name must be a non-empty string''"

definition invalidNameMessage :: "string \<Rightarrow> string" where
  "invalidNameMessage eventType =
     ''Tolinku: event name '' @ [CHR 0x22] @ eventType @ [CHR 0x22] @
     '' is invalid. Event names must match the pattern '' @ [CHR 0x22] @
     ''custom.[a-z0-9_]+'' @ [CHR 0x22] @
     '' (lowercase letters, numbers, and underscores only after '' @ [CHR 0x22] @
     ''custom.'' @ [CHR 0x22] @ '')''"

text \<open>
  \<^verbatim>\<open>track\<close> up to its end or, when the batch is full, up to the await inside
  \<^verbatim>\<open>flush\<close>. The properties argument may be left out.
\<close>

definition track_start ::
  "js_arg \<Rightarrow> TrackProperties option \<Rightarrow> analytics \<Rightarrow> progress \<times> analytics" where
  "track_start arg props s =
     (case arg of
        NotAString \<Rightarrow> (Throws (PlainError emptyNameMessage), s)
      | Str name \<Rightarrow>
          if length (trim name) = 0 then (Throws (PlainError emptyNameMessage), s)
          else
            (let eventType = (if \<not> startsWith name ''custom.'' then ''custom.'' @ name
                              else name)
             in if \<not> eventNameRegex_test eventType
                then (Throws (PlainError (invalidNameMessage eventType)), s)
                else
                  (let s1 = s\<lparr>queue := queue s @
                               [\<lparr>event_type = eventType,
                                 properties = (case props of Some p \<Rightarrow> p | None \<Rightarrow> [])\<rparr>]\<rparr>;
                       s2 = (if length (queue s1) = 1 \<and> flushTimer s1 = None
                             then s1\<lparr>flushTimer := Some Timeout\<rparr> else s1)
                   in if length (queue s2) \<ge> BATCH_SIZE then flush_start s2
                      else (Returns, s2))))"

text \<open>
  A whole call of \<^verbatim>\<open>track\<close>: when it awaits the flush it started, it ends as that
  flush ends.
\<close>

definition track ::
  "js_error + json_value \<Rightarrow> js_arg \<Rightarrow> TrackProperties option \<Rightarrow> analytics
     \<Rightarrow> progress \<times> analytics" where
  "track outcome arg props s =
     (case track_start arg props s of
        (Awaits events, s1) \<Rightarrow> flush_resume outcome events s1
      | (p, s1) \<Rightarrow> (p, s1))"

text \<open>The callback of the flush timer.\<close>

definition timerCallback :: "analytics \<Rightarrow> progress \<times> analytics" where
  "timerCallback s = flush_start (s\<lparr>flushTimer := None\<rparr>)"

subsection \<open>Teardown\<close>

text \<open>
  \<^verbatim>\<open>flushBeacon\<close>. The first argument is \<open>None\<close> when \<^verbatim>\<open>navigator.sendBeacon\<close> is not
  a function, and otherwise holds what \<^verbatim>\<open>sendBeacon\<close> returns, which is not looked at.
  The first result is the batch handed to \<^verbatim>\<open>sendBeacon\<close>, if any.
\<close>

definition flushBeacon :: "bool option \<Rightarrow> analytics \<Rightarrow> QueuedEvent list option \<times> analytics" where
  "flushBeacon sendBeacon s =
     (if length (queue s) = 0 then (None, s)
      else
        (let events = queue s; s1 = s\<lparr>queue := []\<rparr>
         in case sendBeacon of
              Some accepted \<Rightarrow> (Some events, s1)
            | None \<Rightarrow> (None, s1)))"

definition destroy ::
  "bool \<Rightarrow> bool option \<Rightarrow> analytics \<Rightarrow> QueuedEvent list option \<times> analytics" where
  "destroy hasWindow sendBeacon s =
     (let (beacon, s1) = flushBeacon sendBeacon s;
          s2 = (if flushTimer s1 \<noteq> None then s1\<lparr>flushTimer := None\<rparr> else s1);
          s3 = (if hasWindow \<and> unloadHandler s2 \<noteq> None then s2\<lparr>unloadHandler := None\<rparr>
                else s2)
      in (beacon, s3))"

subsection \<open>The batcher among overlapping calls\<close>

text \<open>
  The object together with what is around it: whether \<^verbatim>\<open>window\<close> is defined, the
  batches of the POSTs that have not settled yet, every batch handed to
  \<^verbatim>\<open>client.post\<close> so far and every batch handed to \<^verbatim>\<open>sendBeacon\<close> so far.
\<close>

record system =
  object :: analytics
  window :: bool
  inflight :: "QueuedEvent list list"
  posted :: "QueuedEvent list list"
  beacons :: "QueuedEvent list list"

definition newSystem :: "bool \<Rightarrow> system" where
  "newSystem hasWindow =
     \<lparr>object = newAnalytics hasWindow, window = hasWindow,
      inflight = [], posted = [], beacons = []\<rparr>"

text \<open>
  One turn of the event loop: a call of \<^verbatim>\<open>track\<close> or \<^verbatim>\<open>flush\<close> up to its await,
  the flush timer running out, the POST of the in-flight batch number \<open>i\<close> settling
  (by which its flush resumes), the page unloading, or a call of \<^verbatim>\<open>destroy\<close>.
\<close>

datatype action =
    Track js_arg "TrackProperties option"
  | Flush
  | TimerFires
  | PostSettles nat "js_error + json_value"
  | PageUnload "bool option"
  | Destroy "bool option"

definition began :: "progress \<times> analytics \<Rightarrow> system \<Rightarrow> system" where
  "began r \<sigma> =
     (case fst r of
        Awaits events \<Rightarrow>
          \<sigma>\<lparr>object := snd r, inflight := inflight \<sigma> @ [events], posted := posted \<sigma> @ [events]\<rparr>
      | _ \<Rightarrow> \<sigma>\<lparr>object := snd r\<rparr>)"

definition beaconed :: "QueuedEvent list option \<times> analytics \<Rightarrow> system \<Rightarrow> system" where
  "beaconed r \<sigma> =
     (case fst r of
        Some events \<Rightarrow> \<sigma>\<lparr>object := snd r, beacons := beacons \<sigma> @ [events]\<rparr>
      | None \<Rightarrow> \<sigma>\<lparr>object := snd r\<rparr>)"

fun step :: "action \<Rightarrow> system \<Rightarrow> system" where
  "step (Track arg props) \<sigma> = began (track_start arg props (object \<sigma>)) \<sigma>"
| "step Flush \<sigma> = began (flush_start (object \<sigma>)) \<sigma>"
| "step TimerFires \<sigma> =
     (if flushTimer (object \<sigma>) \<noteq> None then began (timerCallback (object \<sigma>)) \<sigma> else \<sigma>)"
| "step (PostSettles i outcome) \<sigma> =
     (if i < length (inflight \<sigma>)
      then \<sigma>\<lparr>object := snd (flush_resume outcome (inflight \<sigma> ! i) (object \<sigma>)),
             inflight := take i (inflight \<sigma>) @ drop (Suc i) (inflight \<sigma>)\<rparr>
      else \<sigma>)"
| "step (PageUnload sendBeacon) \<sigma> =
     (if unloadHandler (object \<sigma>) \<noteq> None then beaconed (flushBeacon sendBeacon (object \<sigma>)) \<sigma>
      else \<sigma>)"
| "step (Destroy sendBeacon) \<sigma> = beaconed (destroy (window \<sigma>) sendBeacon (object \<sigma>)) \<sigma>"

definition runActions :: "action list \<Rightarrow> system \<Rightarrow> system" where
  "runActions acts \<sigma> = foldl (\<lambda>\<sigma>' a. step a \<sigma>') \<sigma> acts"

fun isTeardown :: "action \<Rightarrow> bool" where
  "isTeardown (PageUnload b) = True"
| "isTeardown (Destroy b) = True"
| "isTeardown _ = False"

text \<open>A POST settles in a way that makes the \<^verbatim>\<open>try\<close> block of its flush throw.\<close>

fun isFailure :: "action \<Rightarrow> bool" where
  "isFailure (PostSettles i outcome) = (tryBlock outcome \<noteq> None)"
| "isFailure _ = False"

definition validEvent :: "QueuedEvent \<Rightarrow> bool" where
  "validEvent ev = eventNameRegex_test (event_type ev)"

text \<open>Every event the system holds or has sent carries a name the pattern accepts.\<close>

definition allValid :: "system \<Rightarrow> bool" where
  "allValid \<sigma> =
     (list_all validEvent (queue (object \<sigma>)) \<and>
      list_all (list_all validEvent) (inflight \<sigma>) \<and>
      list_all (list_all validEvent) (posted \<sigma>) \<and>
      list_all (list_all validEvent) (beacons \<sigma>))"

subsection \<open>Example events\<close>

definition signup :: QueuedEvent where
  "signup = \<lparr>event_type = ''custom.signup'', properties = []\<rparr>"

definition oneQueued :: analytics where
  "oneQueued = \<lparr>queue = [signup], flushTimer = Some Timeout, unloadHandler = Some Listener\<rparr>"

section \<open>Properties of the HTTP client\<close>

subsection \<open>The loop, attempt by attempt\<close>

text \<open>
  While attempts remain the value of \<^verbatim>\<open>lastError\<close> does not matter: it is only
  thrown after the last attempt has set it.
\<close>

lemma fetchLoop_lastError_irrelevant:
  "attempt \<le> MAX_RETRIES \<Longrightarrow> fetchLoop e attempt le = fetchLoop e attempt le'"
proof (induction "MAX_RETRIES - attempt" arbitrary: attempt le le')
  case 0
  then have "\<not> attempt < MAX_RETRIES" "attempt \<le> MAX_RETRIES" by simp_all
  then show ?case
    apply (subst fetchLoop.simps[of e attempt le])
    apply (subst fetchLoop.simps[of e attempt le'])
    apply (simp split: sum.splits)
    done
next
  case (Suc n)
  then have lt: "attempt < MAX_RETRIES" by simp
  have IH: "fetchLoop e (Suc attempt) le = fetchLoop e (Suc attempt) le'"
    using Suc.hyps(1)[of "Suc attempt" le le'] Suc.hyps(2) by simp
  show ?case
    using lt IH
    apply (subst fetchLoop.simps[of e attempt le])
    apply (subst fetchLoop.simps[of e attempt le'])
    apply (simp add: Let_def split: sum.splits)
    done
qed

lemma fetchLoop_retried:
  assumes "retried e a"
  shows "fetchLoop e a le = performed [delayAfter e a] (fetchLoop e (Suc a) le')"
proof -
  from assms have "Suc a \<le> MAX_RETRIES" by (simp add: retried_def sleeps_def)
  then have irr: "\<And>x. fetchLoop e (Suc a) x = fetchLoop e (Suc a) le'"
    by (rule fetchLoop_lastError_irrelevant)
  show ?thesis
  proof (cases "fetch e a")
    case (Inl err)
    with assms irr[of err] show ?thesis
      by (subst fetchLoop.simps) (auto simp: retried_def sleeps_def delayAfter_def Let_def)
  next
    case (Inr res)
    with assms irr[of le] show ?thesis
      by (subst fetchLoop.simps) (auto simp: retried_def sleeps_def delayAfter_def Let_def)
  qed
qed

lemma fetchLoop_not_retried:
  assumes "a \<le> MAX_RETRIES" "\<not> retried e a"
  shows "calls (fetchLoop e a le) = 1"
proof -
  have past: "\<And>x. calls (fetchLoop e (Suc MAX_RETRIES) x) = 0"
    by (subst fetchLoop.simps) simp
  show ?thesis
  proof (cases "a < MAX_RETRIES")
    case True
    with assms show ?thesis
      by (subst fetchLoop.simps)
         (auto simp: retried_def sleeps_def Let_def split: sum.splits)
  next
    case False
    with assms have "a = MAX_RETRIES" by simp
    then show ?thesis
      by (subst fetchLoop.simps) (auto simp: past performed_def split: sum.splits)
  qed
qed

lemma reached_Suc: "reached e (Suc k) \<longleftrightarrow> reached e k \<and> retried e k"
  by (auto simp: reached_def retried_def sleeps_def)

lemma reached_0: "reached e 0"
  by (simp add: reached_def)

lemma fetchLoop_ahead:
  "reached e k \<Longrightarrow> fetchLoop e 0 le = ahead e k (fetchLoop e k le')"
proof (induction k arbitrary: le')
  case 0
  then show ?case
    using fetchLoop_lastError_irrelevant[of 0 e le le'] by simp
next
  case (Suc k)
  then have "reached e k" "retried e k" by (simp_all add: reached_Suc)
  then show ?case
    using Suc.IH[of le] fetchLoop_retried[of e k le le'] by simp
qed

lemma calls_ahead: "calls (ahead e k r) = k + calls r"
  by (induction k arbitrary: r) (simp_all add: performed_def)

lemma result_ahead: "result (ahead e k r) = result r"
  by (induction k arbitrary: r) (simp_all add: performed_def)

lemma delays_ahead: "delays (ahead e k r) = map (delayAfter e) [0..<k] @ delays r"
  by (induction k arbitrary: r) (simp_all add: performed_def)

text \<open>
  The request gets as far as the call of attempt \<open>k\<close> exactly when it makes more than
  \<open>k\<close> network calls.
\<close>

lemma calls_positive: "a \<le> MAX_RETRIES \<Longrightarrow> 0 < calls (fetchLoop e a le)"
  by (subst fetchLoop.simps) (auto simp: Let_def performed_def split: sum.splits)

lemma reached_iff_calls: "reached e k \<longleftrightarrow> k < calls (fetchWithRetry e)"
proof
  assume r: "reached e k"
  then have "k \<le> MAX_RETRIES" by (simp add: reached_def)
  then show "k < calls (fetchWithRetry e)"
    using fetchLoop_ahead[OF r, of Undefined Undefined] calls_positive[of k e Undefined]
    by (simp add: fetchWithRetry_def calls_ahead)
next
  show "k < calls (fetchWithRetry e) \<Longrightarrow> reached e k"
  proof (induction k)
    case 0
    show ?case by (rule reached_0)
  next
    case (Suc k)
    then have r: "reached e k" by simp
    then have k: "k \<le> MAX_RETRIES" by (simp add: reached_def)
    have "calls (fetchWithRetry e) = k + calls (fetchLoop e k Undefined)"
      using fetchLoop_ahead[OF r, of Undefined Undefined]
      by (simp add: fetchWithRetry_def calls_ahead)
    with Suc.prems have "calls (fetchLoop e k Undefined) \<noteq> 1" by simp
    with k have "retried e k" using fetchLoop_not_retried by blast
    with r show ?case by (simp add: reached_Suc)
  qed
qed


lemma delays_sleeps:
  "sleeps e k \<Longrightarrow> \<exists>ds. delays (fetchLoop e k le) = delayAfter e k # ds"
  by (subst fetchLoop.simps)
     (auto simp: sleeps_def delayAfter_def Let_def performed_def split: sum.splits)

lemma delay_slept:
  assumes "reached e k" "sleeps e k"
  shows "delays (fetchWithRetry e) ! k = delayAfter e k"
proof -
  obtain ds where "delays (fetchLoop e k Undefined) = delayAfter e k # ds"
    using delays_sleeps[OF assms(2)] by blast
  then show ?thesis
    using fetchLoop_ahead[OF assms(1), of Undefined Undefined]
    by (simp add: fetchWithRetry_def delays_ahead nth_append)
qed



lemma post_null_body_example:
  "fetchWithRetry serverErrorsNullBody =
     \<lparr>result = Inr \<lparr>status = 500, statusText = ''Internal Server Error'',
                      retryAfter = None, json = Some JsonNull\<rparr>,
      calls = 4, delays = [Num 500, Num 1000, Num 2000]\<rparr> \<and>
   post serverErrorsNullBody = Inl TypeError"
  by (simp add: post_def fetchWithRetry_def fetchLoop.simps serverErrorsNullBody_def
        MAX_RETRIES_def ok_def computeDelay_def performed_def BASE_DELAY_MS_def
        MAX_JITTER_MS_def)

subsection \<open>The retry policy\<close>






text \<open>
  Claim C8. When the signal is aborted while the network call of attempt \<open>k\<close> is in
  flight, or during the delay that follows that call, the logical request rejects with
  the AbortError, which is not retried: the call of attempt \<open>k\<close> is the last network
  call of the request. The request method passes the AbortError on.
\<close>

theorem abort_ends_request:
  assumes "reached e k"
    and "fetch e k = Inl AbortError \<or> (sleeps e k \<and> sleepAborted e k)"
  shows "result (fetchWithRetry e) = Inl AbortError \<and>
         calls (fetchWithRetry e) = Suc k \<and>
         post e = Inl AbortError"
proof -
  from assms(1) have k: "k \<le> MAX_RETRIES" by (simp add: reached_def)
  have "\<exists>ds. fetchLoop e k Undefined = \<lparr>result = Inl AbortError, calls = 1, delays = ds\<rparr>"
    using assms(2) k
    by (subst fetchLoop.simps) (auto simp: sleeps_def Let_def split: sum.splits)
  then obtain ds where
    "fetchWithRetry e = ahead e k \<lparr>result = Inl AbortError, calls = 1, delays = ds\<rparr>"
    using fetchLoop_ahead[OF assms(1), of Undefined Undefined] by (auto simp: fetchWithRetry_def)
  then show ?thesis
    by (simp add: result_ahead calls_ahead post_def)
qed

theorem abort_ends_request_witness:
  "reached abortedInDelay 0 \<and> sleeps abortedInDelay 0 \<and> sleepAborted abortedInDelay 0 \<and>
   result (fetchWithRetry abortedInDelay) = Inl AbortError \<and>
   calls (fetchWithRetry abortedInDelay) = 1"
proof -
  have h1: "reached abortedInDelay 0" by (simp add: reached_def)
  have h2: "sleeps abortedInDelay 0 \<and> sleepAborted abortedInDelay 0"
    by (simp add: sleeps_def abortedInDelay_def MAX_RETRIES_def ok_def)
  show ?thesis
    using h1 h2 abort_ends_request[of abortedInDelay 0] by simp
qed

subsection \<open>The delays\<close>

text \<open>
  Claim C7. With \<^verbatim>\<open>Math.random()\<close> returning zero and no rate-limit hint (no
  response, a status other than 429, or no Retry-After header), the delay computed
  at retry \<open>n\<close> (counted from zero) is \<open>BASE_DELAY_MS * 2 ^ n\<close> with
  \<open>BASE_DELAY_MS = 500\<close>, that is 500, 1000 and 2000 ms for the three retries; it is
  the delay number \<open>n\<close> of the logical request when the request gets that far.
\<close>

theorem backoff_without_jitter:
  assumes "mathRandom e n = 0"
    and "case res of None \<Rightarrow> True | Some r \<Rightarrow> status r \<noteq> 429 \<or> retryAfter r = None"
  shows "computeDelay e n res = Num (BASE_DELAY_MS * 2 ^ n) \<and>
         BASE_DELAY_MS = 500 \<and>
         (n = 0 \<longrightarrow> computeDelay e n res = Num 500) \<and>
         (n = 1 \<longrightarrow> computeDelay e n res = Num 1000) \<and>
         (n = 2 \<longrightarrow> computeDelay e n res = Num 2000) \<and>
         (reached e n \<and> sleeps e n \<and>
            res = (case fetch e n of Inr r \<Rightarrow> Some r | Inl err \<Rightarrow> None) \<longrightarrow>
            delays (fetchWithRetry e) ! n = Num (BASE_DELAY_MS * 2 ^ n))"
proof -
  have d: "computeDelay e n res = Num (BASE_DELAY_MS * 2 ^ n)"
    using assms by (auto simp: computeDelay_def Let_def split: option.splits)
  have "delays (fetchWithRetry e) ! n = Num (BASE_DELAY_MS * 2 ^ n)"
    if "reached e n" "sleeps e n"
       "res = (case fetch e n of Inr r \<Rightarrow> Some r | Inl err \<Rightarrow> None)"
    using delay_slept[OF that(1,2)] d that(3) by (simp add: delayAfter_def)
  with d show ?thesis by (auto simp: BASE_DELAY_MS_def)
qed

theorem backoff_without_jitter_witness:
  "mathRandom serverErrors 2 = 0 \<and>
   retryAfter \<lparr>status = 502, statusText = ''Error'', retryAfter = None, json = None\<rparr> = None \<and>
   computeDelay serverErrors 2
     (Some \<lparr>status = 502, statusText = ''Error'', retryAfter = None, json = None\<rparr>) = Num 2000 \<and>
   delays (fetchWithRetry serverErrors) = [Num 500, Num 1000, Num 2000]"
proof -
  have run: "delays (fetchWithRetry serverErrors) = [Num 500, Num 1000, Num 2000]"
    by (simp add: fetchWithRetry_def fetchLoop.simps serverErrors_def MAX_RETRIES_def ok_def
          computeDelay_def performed_def BASE_DELAY_MS_def MAX_JITTER_MS_def)
  show ?thesis
    using run backoff_without_jitter
      [of serverErrors 2
          "Some \<lparr>status = 502, statusText = ''Error'', retryAfter = None, json = None\<rparr>"]
    by (simp add: serverErrors_def)
qed

text \<open>
  Claim C5, as the code has it. For a 429 response whose Retry-After header is a
  non-empty string that \<^verbatim>\<open>Number\<close> converts to a number greater than zero, the delay
  is that number times 1000, whatever the attempt and the jitter; it is the delay the
  logical request sleeps after that response. A 429 response with no header, an empty
  one, one that converts to NaN, or one that converts to zero or a negative number,
  gets the exponential delay plus jitter.
\<close>

theorem retry_after_delay:
  assumes "status r = 429"
  shows "(retryAfter r = Some h \<and> h \<noteq> [] \<and> \<not> isNaN (toNumber e h) \<and>
            greaterThanZero (toNumber e h) \<longrightarrow>
            computeDelay e a (Some r) = times1000 (toNumber e h)) \<and>
         (retryAfter r = Some h \<and> h \<noteq> [] \<and> toNumber e h = Num s \<and> 0 < s \<longrightarrow>
            computeDelay e a (Some r) = Num (s * 1000) \<and>
            (reached e a \<and> a < MAX_RETRIES \<and> fetch e a = Inr r \<longrightarrow>
               delays (fetchWithRetry e) ! a = Num (s * 1000))) \<and>
         (retryAfter r = None \<or> retryAfter r = Some [] \<or>
            (retryAfter r = Some h \<and>
               (isNaN (toNumber e h) \<or> \<not> greaterThanZero (toNumber e h))) \<longrightarrow>
            computeDelay e a (Some r) =
              Num (BASE_DELAY_MS * 2 ^ a + mathRandom e a * MAX_JITTER_MS))"
proof (intro conjI impI)
  assume "retryAfter r = Some h \<and> h \<noteq> [] \<and> \<not> isNaN (toNumber e h) \<and>
          greaterThanZero (toNumber e h)"
  with assms show "computeDelay e a (Some r) = times1000 (toNumber e h)"
    by (simp add: computeDelay_def Let_def)
next
  assume h: "retryAfter r = Some h \<and> h \<noteq> [] \<and> toNumber e h = Num s \<and> 0 < s"
  with assms show d: "computeDelay e a (Some r) = Num (s * 1000)"
    by (simp add: computeDelay_def Let_def)
  assume k: "reached e a \<and> a < MAX_RETRIES \<and> fetch e a = Inr r"
  with assms have "sleeps e a" by (simp add: sleeps_def ok_def)
  with k d show "delays (fetchWithRetry e) ! a = Num (s * 1000)"
    using delay_slept[of e a] by (simp add: delayAfter_def)
next
  assume "retryAfter r = None \<or> retryAfter r = Some [] \<or>
          (retryAfter r = Some h \<and> (isNaN (toNumber e h) \<or> \<not> greaterThanZero (toNumber e h)))"
  with assms show "computeDelay e a (Some r) =
      Num (BASE_DELAY_MS * 2 ^ a + mathRandom e a * MAX_JITTER_MS)"
    by (auto simp: computeDelay_def Let_def)
qed

theorem retry_after_delay_witness:
  "status \<lparr>status = 429, statusText = ''Too Many Requests'', retryAfter = Some ''2'',
           json = None\<rparr> = 429 \<and>
   toNumber (rateLimited ''2'') ''2'' = Num 2 \<and>
   computeDelay (rateLimited ''2'') 1
     (Some \<lparr>status = 429, statusText = ''Too Many Requests'', retryAfter = Some ''2'',
            json = None\<rparr>) = Num 2000 \<and>
   delays (fetchWithRetry (rateLimited ''2'')) = [Num 2000, Num 2000, Num 2000]"
proof -
  have n: "toNumber (rateLimited ''2'') ''2'' = Num 2"
    by (simp add: rateLimited_def digitsToNumber_def isDigit_def)
  have run: "delays (fetchWithRetry (rateLimited ''2'')) = [Num 2000, Num 2000, Num 2000]"
    by (simp add: fetchWithRetry_def fetchLoop.simps rateLimited_def MAX_RETRIES_def ok_def
          computeDelay_def performed_def digitsToNumber_def isDigit_def)
  show ?thesis
    using n run retry_after_delay
      [of "\<lparr>status = 429, statusText = ''Too Many Requests'', retryAfter = Some ''2'',
            json = None\<rparr>" "''2''" "rateLimited ''2''" 1 2]
    by simp
qed

text \<open>
  Against claim C5 as it is worded: the header \<^verbatim>\<open>Retry-After: 0\<close> is a numeric
  seconds value, and the delay is not \<open>0 * 1000\<close> but the exponential delay plus
  jitter, here 500 + 125.
\<close>

theorem retry_after_zero_counterexample:
  "toNumber (rateLimited ''0'') ''0'' = Num 0 \<and>
   computeDelay (rateLimited ''0'') 0
     (Some \<lparr>status = 429, statusText = ''Too Many Requests'', retryAfter = Some ''0'',
            json = None\<rparr>) = Num 625 \<and>
   computeDelay (rateLimited ''0'') 0
     (Some \<lparr>status = 429, statusText = ''Too Many Requests'', retryAfter = Some ''0'',
            json = None\<rparr>) \<noteq> Num (0 * 1000)"
  by (simp add: rateLimited_def digitsToNumber_def isDigit_def computeDelay_def
        BASE_DELAY_MS_def MAX_JITTER_MS_def)

section \<open>Properties of the event batcher\<close>

subsection \<open>The calls, one by one\<close>

lemma timeout_unique: "(y :: timeout) = Timeout"
  by (cases y) simp

lemma timeout_option: "(t :: timeout option) \<noteq> None \<longleftrightarrow> t = Some Timeout"
  by (cases t) (simp_all add: timeout_unique)

lemma flush_start_empty:
  "queue s = [] \<Longrightarrow> flush_start s = (Returns, s\<lparr>flushTimer := None\<rparr>)"
  by (cases s) (simp add: flush_start_def)

lemma flush_start_nonempty:
  "queue s \<noteq> [] \<Longrightarrow> flush_start s = (Awaits (queue s), s\<lparr>flushTimer := None, queue := []\<rparr>)"
  by (cases s) (simp add: flush_start_def Let_def)

lemma flush_start_clears:
  "flushTimer (snd (flush_start s)) = None \<and> queue (snd (flush_start s)) = [] \<and>
   unloadHandler (snd (flush_start s)) = unloadHandler s"
  by (cases "queue s = []") (simp_all add: flush_start_empty flush_start_nonempty)

lemma flush_start_progress:
  "fst (flush_start s) = (if queue s = [] then Returns else Awaits (queue s))"
  by (simp add: flush_start_empty flush_start_nonempty)

lemma flush_resume_returns: "fst (flush_resume outcome events s) = Returns"
  by (simp add: flush_resume_def tryBlock_def Let_def split: option.splits)

lemma flush_resume_resolved:
  "tryBlock outcome = None \<Longrightarrow> flush_resume outcome events s = (Returns, s)"
  by (simp add: flush_resume_def tryBlock_def)

lemma flush_resume_caught:
  "tryBlock outcome \<noteq> None \<Longrightarrow>
   flush_resume outcome events s =
     (Returns, s\<lparr>queue := drop (length (events @ queue s) - MAX_QUEUE_SIZE) (events @ queue s)\<rparr>)"
  by (cases s) (auto simp: flush_resume_def tryBlock_def Let_def)

lemma flush_resume_rejected:
  "flush_resume (Inl err) events s =
     (Returns, s\<lparr>queue := drop (length (events @ queue s) - MAX_QUEUE_SIZE) (events @ queue s)\<rparr>)"
  by (rule flush_resume_caught) (simp add: tryBlock_def)

text \<open>A POST that resolves with \<^verbatim>\<open>null\<close> is treated as one that was rejected.\<close>

lemma flush_resume_null:
  "flush_resume (Inr JsonNull) events s = flush_resume (Inl err) events s"
  by (simp add: flush_resume_def tryBlock_def)

lemma trim_empty_iff: "trim s = [] \<longleftrightarrow> list_all isWhiteSpace s"
proof -
  have "trim s = [] \<longleftrightarrow> (\<forall>x\<in>set (dropWhile isWhiteSpace s). isWhiteSpace x)"
    by (simp add: trim_def)
  also have "\<dots> \<longleftrightarrow> (\<forall>x\<in>set s. isWhiteSpace x)"
  proof
    assume a: "\<forall>x\<in>set (dropWhile isWhiteSpace s). isWhiteSpace x"
    show "\<forall>x\<in>set s. isWhiteSpace x"
    proof (rule ccontr)
      assume "\<not> (\<forall>x\<in>set s. isWhiteSpace x)"
      then have ne: "dropWhile isWhiteSpace s \<noteq> []" by simp
      then have "\<not> isWhiteSpace (hd (dropWhile isWhiteSpace s))" by (rule hd_dropWhile)
      moreover from ne have "hd (dropWhile isWhiteSpace s) \<in> set (dropWhile isWhiteSpace s)"
        by (rule hd_in_set)
      ultimately show False using a by blast
    qed
  next
    assume "\<forall>x\<in>set s. isWhiteSpace x"
    then show "\<forall>x\<in>set (dropWhile isWhiteSpace s). isWhiteSpace x"
      by (blast dest: set_dropWhileD)
  qed
  finally show ?thesis by (simp add: list_all_iff)
qed

lemma nameChar_not_whiteSpace: "isNameChar c \<Longrightarrow> \<not> isWhiteSpace c"
  by (auto simp: isNameChar_def isWhiteSpace_def Let_def)

text \<open>When \<^verbatim>\<open>track\<close> throws, and what it does to the object when it does not.\<close>

lemma track_start_throws:
  assumes "arg = NotAString \<or>
           (\<exists>name. arg = Str name \<and>
              (trim name = [] \<or>
               \<not> eventNameRegex_test
                    (if startsWith name ''custom.'' then name else ''custom.'' @ name)))"
  shows "\<exists>m. track_start arg props s = (Throws (PlainError m), s)"
  using assms by (auto simp: track_start_def Let_def)

lemma track_start_enqueues:
  assumes "trim name \<noteq> []"
    and "eventType = (if startsWith name ''custom.'' then name else ''custom.'' @ name)"
    and "eventNameRegex_test eventType"
    and "ev = \<lparr>event_type = eventType,
               properties = (case props of Some p \<Rightarrow> p | None \<Rightarrow> [])\<rparr>"
  shows "track_start (Str name) props s =
           (if BATCH_SIZE \<le> Suc (length (queue s))
            then (Awaits (queue s @ [ev]), s\<lparr>flushTimer := None, queue := []\<rparr>)
            else (Returns, s\<lparr>queue := queue s @ [ev],
                             flushTimer := (if queue s = [] then Some Timeout
                                            else flushTimer s)\<rparr>))"
proof -
  have t: "flushTimer s \<noteq> None \<Longrightarrow> flushTimer s = Some Timeout"
    using timeout_option[of "flushTimer s"] by blast
  show ?thesis
    using assms t
    by (cases s)
       (auto simp: track_start_def Let_def flush_start_nonempty BATCH_SIZE_def
             length_Suc_conv)
qed

subsection \<open>Failed flushes and teardown\<close>

text \<open>
  Claim C4. A flush takes the whole queue as its batch and leaves the queue empty.
  When its POST is rejected, the batch is put back in front of whatever the queue
  holds by then, in its original order, and the queue is then cut from the front,
  its oldest end, to its last \<open>MAX_QUEUE_SIZE = 1000\<close> entries when it is longer.
\<close>

theorem failed_flush_requeues:
  assumes "flush_start s = (Awaits events, s1)"
  shows "events = queue s \<and> queue s1 = [] \<and>
         (let s3 = snd (flush_resume (Inl err) events s2);
              q = events @ queue s2
          in queue s3 = (if length q > MAX_QUEUE_SIZE
                         then drop (length q - MAX_QUEUE_SIZE) q else q) \<and>
             (length q \<le> MAX_QUEUE_SIZE \<longrightarrow> queue s3 = events @ queue s2) \<and>
             (length q > MAX_QUEUE_SIZE \<longrightarrow> length (queue s3) = MAX_QUEUE_SIZE) \<and>
             (\<exists>dropped. dropped @ queue s3 = q) \<and>
             flushTimer s3 = flushTimer s2 \<and> unloadHandler s3 = unloadHandler s2) \<and>
         MAX_QUEUE_SIZE = 1000"
proof -
  from assms have ne: "queue s \<noteq> []"
    by (cases "queue s = []") (simp_all add: flush_start_empty)
  with assms have start: "events = queue s" "queue s1 = []"
    by (auto simp: flush_start_nonempty)
  define q where "q = events @ queue s2"
  define s3 where "s3 = snd (flush_resume (Inl err) events s2)"
  have q3: "queue s3 = drop (length q - MAX_QUEUE_SIZE) q"
    and other: "flushTimer s3 = flushTimer s2" "unloadHandler s3 = unloadHandler s2"
    by (simp_all add: s3_def q_def flush_resume_rejected)
  have "take (length q - MAX_QUEUE_SIZE) q @ queue s3 = q"
    by (simp add: q3)
  then have dropped: "\<exists>dropped. dropped @ queue s3 = q" ..
  have "queue s3 = (if length q > MAX_QUEUE_SIZE
                    then drop (length q - MAX_QUEUE_SIZE) q else q)"
    and "length q \<le> MAX_QUEUE_SIZE \<longrightarrow> queue s3 = q"
    and "length q > MAX_QUEUE_SIZE \<longrightarrow> length (queue s3) = MAX_QUEUE_SIZE"
    by (simp_all add: q3)
  with dropped other have "queue s3 = (if length q > MAX_QUEUE_SIZE
                         then drop (length q - MAX_QUEUE_SIZE) q else q) \<and>
             (length q \<le> MAX_QUEUE_SIZE \<longrightarrow> queue s3 = events @ queue s2) \<and>
             (length q > MAX_QUEUE_SIZE \<longrightarrow> length (queue s3) = MAX_QUEUE_SIZE) \<and>
             (\<exists>dropped. dropped @ queue s3 = q) \<and>
             flushTimer s3 = flushTimer s2 \<and> unloadHandler s3 = unloadHandler s2"
    unfolding q_def by blast
  then show ?thesis
    unfolding Let_def q_def s3_def using start MAX_QUEUE_SIZE_def by blast
qed

theorem failed_flush_requeues_witness:
  "flush_start oneQueued =
     (Awaits [signup], \<lparr>queue = [], flushTimer = None, unloadHandler = Some Listener\<rparr>) \<and>
   queue (snd (flush_resume (Inl (TransportError ''Failed to fetch'')) [signup]
                 \<lparr>queue = [\<lparr>event_type = ''custom.later'', properties = []\<rparr>],
                  flushTimer = Some Timeout, unloadHandler = Some Listener\<rparr>)) =
     [signup, \<lparr>event_type = ''custom.later'', properties = []\<rparr>]"
proof -
  define s2 where "s2 = \<lparr>queue = [\<lparr>event_type = ''custom.later'', properties = []\<rparr>],
                          flushTimer = Some Timeout, unloadHandler = Some Listener\<rparr>"
  have h: "flush_start oneQueued =
     (Awaits [signup], \<lparr>queue = [], flushTimer = None, unloadHandler = Some Listener\<rparr>)"
    by (simp add: flush_start_def oneQueued_def)
  have "length ([signup] @ queue s2) \<le> MAX_QUEUE_SIZE \<longrightarrow>
        queue (snd (flush_resume (Inl (TransportError ''Failed to fetch'')) [signup] s2)) =
          [signup] @ queue s2"
    using failed_flush_requeues[OF h, of "TransportError ''Failed to fetch''" s2]
    unfolding Let_def by blast
  moreover have "length ([signup] @ queue s2) \<le> MAX_QUEUE_SIZE"
    by (simp add: s2_def MAX_QUEUE_SIZE_def)
  ultimately have "queue (snd (flush_resume (Inl (TransportError ''Failed to fetch''))
                                 [signup] s2)) = [signup] @ queue s2"
    by blast
  with h show ?thesis by (simp add: s2_def)
qed

text \<open>
  An example of the cut: a batch of 1000 events goes back in front of one newer
  event, and the first event of the batch, the oldest, is the one dropped.
\<close>

lemma requeue_drops_oldest_example:
  "queue (snd (flush_resume (Inl (TransportError ''Failed to fetch''))
                 (\<lparr>event_type = ''custom.first'', properties = []\<rparr> # replicate 999 signup)
                 \<lparr>queue = [\<lparr>event_type = ''custom.later'', properties = []\<rparr>],
                  flushTimer = None, unloadHandler = None\<rparr>)) =
     replicate 999 signup @ [\<lparr>event_type = ''custom.later'', properties = []\<rparr>]"
  by (simp add: flush_resume_rejected MAX_QUEUE_SIZE_def)

text \<open>
  Claim C2, as the code has it. A rejected POST is caught inside \<^verbatim>\<open>flush\<close>, which
  puts the events back and returns normally: the failure escapes neither from the
  flush that \<^verbatim>\<open>track\<close> starts and awaits, nor from a flush the caller invokes.
  The only exception \<^verbatim>\<open>track\<close> throws is the validation error, before any POST.
\<close>

theorem flush_failure_is_caught:
  "fst (flush_resume outcome events s) = Returns \<and>
   fst (flush outcome s) = Returns \<and>
   queue (snd (flush (Inl err) s)) = drop (length (queue s) - MAX_QUEUE_SIZE) (queue s) \<and>
   (fst (track outcome arg props s) = Returns \<or>
    (\<exists>m. track_start arg props s = (Throws (PlainError m), s) \<and>
         track outcome arg props s = (Throws (PlainError m), s)))"
proof (intro conjI)
  show r: "fst (flush_resume outcome events s) = Returns"
    by (rule flush_resume_returns)
  show "fst (flush outcome s) = Returns"
    by (cases "queue s = []")
       (simp_all add: flush_def flush_start_empty flush_start_nonempty flush_resume_returns)
  show "queue (snd (flush (Inl err) s)) = drop (length (queue s) - MAX_QUEUE_SIZE) (queue s)"
    by (cases "queue s = []")
       (simp_all add: flush_def flush_start_empty flush_start_nonempty flush_resume_rejected)
  show "fst (track outcome arg props s) = Returns \<or>
    (\<exists>m. track_start arg props s = (Throws (PlainError m), s) \<and>
         track outcome arg props s = (Throws (PlainError m), s))"
  proof (cases "arg = NotAString \<or>
           (\<exists>name. arg = Str name \<and>
              (trim name = [] \<or>
               \<not> eventNameRegex_test
                    (if startsWith name ''custom.'' then name else ''custom.'' @ name)))")
    case True
    then obtain m where "track_start arg props s = (Throws (PlainError m), s)"
      using track_start_throws by blast
    then show ?thesis by (auto simp: track_def)
  next
    case False
    then obtain name where n: "arg = Str name" "trim name \<noteq> []"
      "eventNameRegex_test (if startsWith name ''custom.'' then name else ''custom.'' @ name)"
      by (cases arg) auto
    show ?thesis
      unfolding n(1) track_def
      by (subst track_start_enqueues[OF n(2) refl n(3) refl])
         (simp add: flush_resume_returns)
  qed
qed

theorem flush_failure_is_caught_witness:
  "fst (flush (Inl (TransportError ''Failed to fetch'')) oneQueued) = Returns \<and>
   queue (snd (flush (Inl (TransportError ''Failed to fetch'')) oneQueued)) = [signup]"
  using flush_failure_is_caught
    [of "Inl (TransportError ''Failed to fetch'')" "[]" oneQueued "TransportError ''Failed to fetch''"]
  by (simp add: oneQueued_def MAX_QUEUE_SIZE_def)

text \<open>
  Against claim C2 as it is worded: a flush the caller invokes while one event is
  queued, with its POST rejected, does not throw what the POST was rejected with; it
  returns, with the event back in the queue.
\<close>

theorem caller_flush_counterexample:
  "flush (Inl (TransportError ''Failed to fetch'')) oneQueued =
     (Returns, \<lparr>queue = [signup], flushTimer = None, unloadHandler = Some Listener\<rparr>) \<and>
   fst (flush (Inl (TransportError ''Failed to fetch'')) oneQueued) \<noteq>
     Throws (TransportError ''Failed to fetch'')"
  by (simp add: flush_def flush_start_def flush_resume_def tryBlock_def oneQueued_def Let_def
        MAX_QUEUE_SIZE_def)

text \<open>
  Claim C10. \<^verbatim>\<open>flushBeacon\<close> empties the queue whether or not \<^verbatim>\<open>sendBeacon\<close>
  exists and whatever it returns: without \<^verbatim>\<open>sendBeacon\<close> nothing is handed over, and
  in no case is anything put back. After \<^verbatim>\<open>destroy\<close> the queue is empty and the
  flush timer is null, and a second \<^verbatim>\<open>destroy\<close> hands nothing over and leaves the
  object as it is.
\<close>

theorem teardown_discards_queue:
  "queue (snd (flushBeacon sendBeacon s)) = [] \<and>
   flushBeacon None s = (None, s\<lparr>queue := []\<rparr>) \<and>
   flushBeacon (Some accepted) s =
     ((if queue s = [] then None else Some (queue s)), s\<lparr>queue := []\<rparr>) \<and>
   queue (snd (destroy hasWindow sendBeacon s)) = [] \<and>
   flushTimer (snd (destroy hasWindow sendBeacon s)) = None \<and>
   fst (destroy hasWindow sendBeacon s) = fst (flushBeacon sendBeacon s) \<and>
   destroy hasWindow sendBeacon' (snd (destroy hasWindow sendBeacon s)) =
     (None, snd (destroy hasWindow sendBeacon s))"
  by (cases s; cases sendBeacon)
     (simp_all add: flushBeacon_def destroy_def Let_def)

theorem teardown_discards_queue_witness:
  "flushBeacon None oneQueued =
     (None, \<lparr>queue = [], flushTimer = Some Timeout, unloadHandler = Some Listener\<rparr>) \<and>
   flushBeacon (Some False) oneQueued =
     (Some [signup], \<lparr>queue = [], flushTimer = Some Timeout, unloadHandler = Some Listener\<rparr>) \<and>
   destroy True None oneQueued =
     (None, \<lparr>queue = [], flushTimer = None, unloadHandler = None\<rparr>)"
  using teardown_discards_queue[of None oneQueued False True None]
  by (simp add: oneQueued_def destroy_def flushBeacon_def)

subsection \<open>Names of queued events\<close>

lemma runActions_Nil: "runActions [] \<sigma> = \<sigma>"
  by (simp add: runActions_def)

lemma runActions_snoc: "runActions (acts @ [a]) \<sigma> = step a (runActions acts \<sigma>)"
  by (simp add: runActions_def)

lemma list_all_drop: "list_all P xs \<Longrightarrow> list_all P (drop n xs)"
  by (auto simp: list_all_iff dest: in_set_dropD)

lemma list_all_take: "list_all P xs \<Longrightarrow> list_all P (take n xs)"
  by (auto simp: list_all_iff dest: in_set_takeD)

lemma list_all_nth: "list_all P xs \<Longrightarrow> i < length xs \<Longrightarrow> P (xs ! i)"
  by (simp add: list_all_length)

text \<open>What \<^verbatim>\<open>track\<close> does, by whether the name is accepted.\<close>

lemma track_start_cases:
  obtains (rejected) m where "track_start arg props s = (Throws (PlainError m), s)"
    "arg = NotAString \<or>
       (\<exists>name. arg = Str name \<and>
          (trim name = [] \<or>
           \<not> eventNameRegex_test
                (if startsWith name ''custom.'' then name else ''custom.'' @ name)))"
  | (queued) ev where "eventNameRegex_test (event_type ev)"
      "BATCH_SIZE > Suc (length (queue s))"
      "track_start arg props s =
         (Returns, s\<lparr>queue := queue s @ [ev],
                      flushTimer := (if queue s = [] then Some Timeout else flushTimer s)\<rparr>)"
  | (flushed) ev where "eventNameRegex_test (event_type ev)"
      "BATCH_SIZE \<le> Suc (length (queue s))"
      "track_start arg props s =
         (Awaits (queue s @ [ev]), s\<lparr>flushTimer := None, queue := []\<rparr>)"
proof (cases "arg = NotAString \<or>
       (\<exists>name. arg = Str name \<and>
          (trim name = [] \<or>
           \<not> eventNameRegex_test
                (if startsWith name ''custom.'' then name else ''custom.'' @ name)))")
  case True
  then show ?thesis using track_start_throws[of arg props s] rejected by blast
next
  case False
  then obtain name where n: "arg = Str name" "trim name \<noteq> []"
    "eventNameRegex_test (if startsWith name ''custom.'' then name else ''custom.'' @ name)"
    by (cases arg) auto
  define ev where "ev = \<lparr>event_type = (if startsWith name ''custom.'' then name
                                         else ''custom.'' @ name),
                          properties = (case props of Some p \<Rightarrow> p | None \<Rightarrow> [])\<rparr>"
  have v: "eventNameRegex_test (event_type ev)" using n(3) by (simp add: ev_def)
  note t = track_start_enqueues[OF n(2) refl n(3) ev_def, of s]
  show ?thesis
  proof (cases "BATCH_SIZE \<le> Suc (length (queue s))")
    case True
    with t n(1) v show ?thesis by (intro flushed[of ev]) simp_all
  next
    case False
    with t n(1) v show ?thesis by (intro queued[of ev]) simp_all
  qed
qed

lemma step_allValid:
  assumes "allValid \<sigma>"
  shows "allValid (step a \<sigma>)"
proof (cases a)
  case (Track arg props)
  show ?thesis
    by (rule track_start_cases[of arg props "object \<sigma>"])
       (use assms in \<open>simp_all add: Track allValid_def began_def validEvent_def\<close>)
next
  case Flush
  show ?thesis
    using assms unfolding Flush
    by (cases "queue (object \<sigma>) = []")
       (simp_all add: allValid_def began_def flush_start_empty flush_start_nonempty)
next
  case TimerFires
  show ?thesis
    using assms unfolding TimerFires
    by (cases "queue (object \<sigma>) = []")
       (simp_all add: allValid_def began_def timerCallback_def flush_start_empty
          flush_start_nonempty)
next
  case (PostSettles i outcome)
  show ?thesis
  proof (cases "i < length (inflight \<sigma>)")
    case False
    with assms show ?thesis by (simp add: PostSettles)
  next
    case True
    with assms have b: "list_all validEvent (inflight \<sigma> ! i)"
      by (simp add: allValid_def list_all_nth)
    have rest: "list_all (list_all validEvent) (take i (inflight \<sigma>) @ drop (Suc i) (inflight \<sigma>))"
      using assms by (simp add: allValid_def list_all_take list_all_drop)
    show ?thesis
    proof (cases "tryBlock outcome = None")
      case True
      with assms \<open>i < length (inflight \<sigma>)\<close> rest show ?thesis
        by (simp add: PostSettles allValid_def flush_resume_resolved)
    next
      case False
      have "list_all validEvent (inflight \<sigma> ! i @ queue (object \<sigma>))"
        using assms b by (simp add: allValid_def)
      then have "list_all validEvent
        (drop (length (inflight \<sigma> ! i @ queue (object \<sigma>)) - MAX_QUEUE_SIZE)
           (inflight \<sigma> ! i @ queue (object \<sigma>)))"
        by (rule list_all_drop)
      with assms \<open>i < length (inflight \<sigma>)\<close> rest False show ?thesis
        by (simp add: PostSettles allValid_def flush_resume_caught del: drop_append)
    qed
  qed
next
  case (PageUnload sendBeacon)
  show ?thesis
    using assms unfolding PageUnload
    by (cases sendBeacon)
       (simp_all add: allValid_def beaconed_def flushBeacon_def Let_def)
next
  case (Destroy sendBeacon)
  show ?thesis
    using assms unfolding Destroy
    by (cases sendBeacon)
       (simp_all add: allValid_def beaconed_def destroy_def flushBeacon_def Let_def)
qed

lemma runActions_allValid: "allValid (runActions acts (newSystem hasWindow))"
proof (induction acts rule: rev_induct)
  case Nil
  show ?case by (simp add: runActions_Nil allValid_def newSystem_def newAnalytics_def)
next
  case (snoc a acts)
  then show ?case by (simp add: runActions_snoc step_allValid)
qed


lemma accepted_name_not_blank:
  assumes "eventNameRegex_test (if startsWith name ''custom.'' then name else ''custom.'' @ name)"
  shows "trim name \<noteq> []"
proof
  assume "trim name = []"
  then have ws: "\<forall>c\<in>set name. isWhiteSpace c" by (simp add: trim_empty_iff list_all_iff)
  show False
  proof (cases "startsWith name ''custom.''")
    case True
    then have t: "take (length ''custom.'') name = ''custom.''"
      by (simp only: startsWith_def)
    have "CHR ''c'' \<in> set ''custom.''" by simp
    with t have "CHR ''c'' \<in> set (take (length ''custom.'') name)" by (simp only:)
    then have "CHR ''c'' \<in> set name" by (rule in_set_takeD)
    with ws have "isWhiteSpace CHR ''c''" by blast
    then show False by (simp add: isWhiteSpace_def)
  next
    case False
    with assms have "name \<noteq> []" "list_all isNameChar name"
      by (simp_all add: eventNameRegex_test_def)
    then have "hd name \<in> set name" "isNameChar (hd name)"
      by (simp_all add: list_all_iff)
    with ws show False using nameChar_not_whiteSpace by blast
  qed
qed

text \<open>
  Claim C9. When the name is not a string, or is empty or all white space, or with
  \<^verbatim>\<open>custom.\<close> put in front if it does not start with it fails the pattern
  \<^verbatim>\<open>^custom\.[a-z0-9_]+$\<close>, \<^verbatim>\<open>track\<close> throws an error and leaves the object as it
  was. Otherwise the event is appended to the queue (and goes out with the batch when
  the batch is full) under the name with \<^verbatim>\<open>custom.\<close> in front, or under the name
  itself when it starts with \<^verbatim>\<open>custom.\<close> already. Whatever calls are made, every
  event in the queue, in a batch posted or in a batch handed to \<^verbatim>\<open>sendBeacon\<close>
  carries a name the pattern accepts.
\<close>

theorem track_validates_name:
  "(arg = NotAString \<or>
      (\<exists>name. arg = Str name \<and>
         (trim name = [] \<or>
          \<not> eventNameRegex_test
               (if startsWith name ''custom.'' then name else ''custom.'' @ name))) \<longrightarrow>
      (\<exists>m. track_start arg props s = (Throws (PlainError m), s) \<and>
           track outcome arg props s = (Throws (PlainError m), s))) \<and>
   (eventNameRegex_test (if startsWith name ''custom.'' then name else ''custom.'' @ name) \<longrightarrow>
      (let ev = \<lparr>event_type = (if startsWith name ''custom.'' then name
                                 else ''custom.'' @ name),
                  properties = (case props of Some p \<Rightarrow> p | None \<Rightarrow> [])\<rparr>;
           r = track_start (Str name) props s
       in (fst r = Returns \<and> queue (snd r) = queue s @ [ev]) \<or>
          (fst r = Awaits (queue s @ [ev]) \<and> queue (snd r) = []))) \<and>
   allValid (runActions acts (newSystem hasWindow))"
proof (intro conjI impI)
  assume "arg = NotAString \<or>
      (\<exists>name. arg = Str name \<and>
         (trim name = [] \<or>
          \<not> eventNameRegex_test
               (if startsWith name ''custom.'' then name else ''custom.'' @ name)))"
  then obtain m where "track_start arg props s = (Throws (PlainError m), s)"
    using track_start_throws by blast
  then show "\<exists>m. track_start arg props s = (Throws (PlainError m), s) \<and>
           track outcome arg props s = (Throws (PlainError m), s)"
    by (simp add: track_def)
next
  assume v: "eventNameRegex_test
              (if startsWith name ''custom.'' then name else ''custom.'' @ name)"
  then have "trim name \<noteq> []" by (rule accepted_name_not_blank)
  from track_start_enqueues[OF this refl v refl, of props s]
  show "let ev = \<lparr>event_type = (if startsWith name ''custom.'' then name
                                 else ''custom.'' @ name),
                  properties = (case props of Some p \<Rightarrow> p | None \<Rightarrow> [])\<rparr>;
           r = track_start (Str name) props s
       in (fst r = Returns \<and> queue (snd r) = queue s @ [ev]) \<or>
          (fst r = Awaits (queue s @ [ev]) \<and> queue (snd r) = [])"
    by (simp add: Let_def)
next
  show "allValid (runActions acts (newSystem hasWindow))"
    by (rule runActions_allValid)
qed

theorem track_validates_name_witness:
  "track_start (Str ''custom.MyEvent'') None oneQueued =
     (Throws (PlainError (invalidNameMessage ''custom.MyEvent'')), oneQueued) \<and>
   track_start (Str ''purchase'') None oneQueued =
     (Returns, \<lparr>queue = [signup, \<lparr>event_type = ''custom.purchase'', properties = []\<rparr>],
                flushTimer = Some Timeout, unloadHandler = Some Listener\<rparr>) \<and>
   queue (snd (track_start (Str ''custom.purchase'') None oneQueued)) =
     [signup, \<lparr>event_type = ''custom.purchase'', properties = []\<rparr>] \<and>
   allValid (runActions [Track (Str ''signup'') None, Flush] (newSystem True))"
proof -
  have a: "track_start (Str ''custom.MyEvent'') None oneQueued =
     (Throws (PlainError (invalidNameMessage ''custom.MyEvent'')), oneQueued)"
    by (simp add: track_start_def trim_def isWhiteSpace_def startsWith_def
          eventNameRegex_test_def isNameChar_def)
  have b: "track_start (Str ''purchase'') None oneQueued =
     (Returns, \<lparr>queue = [signup, \<lparr>event_type = ''custom.purchase'', properties = []\<rparr>],
                flushTimer = Some Timeout, unloadHandler = Some Listener\<rparr>)"
    by (simp add: track_start_def trim_def isWhiteSpace_def startsWith_def
          eventNameRegex_test_def isNameChar_def oneQueued_def BATCH_SIZE_def)
  have c: "queue (snd (track_start (Str ''custom.purchase'') None oneQueued)) =
     [signup, \<lparr>event_type = ''custom.purchase'', properties = []\<rparr>]"
    by (simp add: track_start_def trim_def isWhiteSpace_def startsWith_def
          eventNameRegex_test_def isNameChar_def oneQueued_def BATCH_SIZE_def)
  show ?thesis
    using a b c
      track_validates_name[of "Str ''custom.MyEvent''" None oneQueued "Inr JsonNull"
        "''purchase''" "[Track (Str ''signup'') None, Flush]" True]
    by simp
qed

subsection \<open>The flush timer\<close>

text \<open>
  What the code does keep between the timer and the queue, over all sequences of
  calls without teardown: a pending timer means a non-empty queue, only a
  \<^verbatim>\<open>track\<close> call on an empty queue arms the timer, and every flush clears it.
\<close>

lemma flush_resume_nonempty:
  assumes "queue s \<noteq> []"
  shows "queue (snd (flush_resume outcome events s)) \<noteq> []"
proof (cases "tryBlock outcome = None")
  case True
  with assms show ?thesis by (simp add: flush_resume_resolved)
next
  case False
  define q where "q = events @ queue s"
  from assms have "0 < length q" by (simp add: q_def)
  then have "length q - MAX_QUEUE_SIZE < length q \<or> MAX_QUEUE_SIZE = 0" by arith
  then have "drop (length q - MAX_QUEUE_SIZE) q \<noteq> []"
    by (simp add: MAX_QUEUE_SIZE_def)
  then show ?thesis
    unfolding q_def using False by (simp add: flush_resume_caught del: drop_append)
qed

lemma flush_resume_timer:
  "flushTimer (snd (flush_resume outcome events s)) = flushTimer s"
  by (cases "tryBlock outcome = None")
     (simp_all add: flush_resume_caught flush_resume_resolved)

text \<open>A pending timer means a non-empty queue, as long as the page is not torn down.\<close>

lemma step_timer_queue:
  assumes "\<not> isTeardown a"
    and "flushTimer (object \<sigma>) \<noteq> None \<longrightarrow> queue (object \<sigma>) \<noteq> []"
  shows "flushTimer (object (step a \<sigma>)) \<noteq> None \<longrightarrow> queue (object (step a \<sigma>)) \<noteq> []"
proof (cases a)
  case (Track arg props)
  show ?thesis
    by (rule track_start_cases[of arg props "object \<sigma>"])
       (use assms in \<open>simp_all add: Track began_def\<close>)
next
  case Flush
  then show ?thesis
    using flush_start_clears[of "object \<sigma>"]
    by (simp add: began_def split: progress.splits)
next
  case TimerFires
  then show ?thesis
    using assms flush_start_clears[of "(object \<sigma>)\<lparr>flushTimer := None\<rparr>"]
    by (simp add: began_def timerCallback_def split: progress.splits)
next
  case (PostSettles i outcome)
  show ?thesis
    using assms flush_resume_nonempty[of "object \<sigma>" outcome "inflight \<sigma> ! i"]
    by (simp add: PostSettles flush_resume_timer)
next
  case (PageUnload b)
  with assms show ?thesis by simp
next
  case (Destroy b)
  with assms show ?thesis by simp
qed

lemma runActions_timer_queue:
  assumes "list_all (\<lambda>a. \<not> isTeardown a) acts"
  shows "flushTimer (object (runActions acts (newSystem hasWindow))) \<noteq> None \<longrightarrow>
         queue (object (runActions acts (newSystem hasWindow))) \<noteq> []"
  using assms
proof (induction acts rule: rev_induct)
  case Nil
  show ?case by (simp add: runActions_Nil newSystem_def newAnalytics_def)
next
  case (snoc a acts)
  from snoc.prems have na: "\<not> isTeardown a"
    and rest: "list_all (\<lambda>a. \<not> isTeardown a) acts"
    by simp_all
  show ?case
    unfolding runActions_snoc
    by (rule step_timer_queue[OF na snoc.IH[OF rest]])
qed

text \<open>
  As long as no flush has had its \<^verbatim>\<open>try\<close> block throw, the timer is pending exactly
  while the queue is non-empty.
\<close>

lemma step_timer_iff_queue:
  assumes "\<not> isTeardown a" "\<not> isFailure a"
    and "flushTimer (object \<sigma>) \<noteq> None \<longleftrightarrow> queue (object \<sigma>) \<noteq> []"
  shows "flushTimer (object (step a \<sigma>)) \<noteq> None \<longleftrightarrow> queue (object (step a \<sigma>)) \<noteq> []"
proof (cases a)
  case (Track arg props)
  show ?thesis
    by (rule track_start_cases[of arg props "object \<sigma>"])
       (use assms in \<open>simp_all add: Track began_def\<close>)
next
  case Flush
  then show ?thesis
    using flush_start_clears[of "object \<sigma>"]
    by (simp add: began_def split: progress.splits)
next
  case TimerFires
  then show ?thesis
    using assms flush_start_clears[of "(object \<sigma>)\<lparr>flushTimer := None\<rparr>"]
    by (simp add: began_def timerCallback_def split: progress.splits)
next
  case (PostSettles i outcome)
  with assms(2) have "tryBlock outcome = None" by simp
  then show ?thesis using assms by (simp add: PostSettles flush_resume_resolved)
next
  case (PageUnload b)
  with assms show ?thesis by simp
next
  case (Destroy b)
  with assms show ?thesis by simp
qed

lemma runActions_timer_iff_queue:
  assumes "list_all (\<lambda>a. \<not> isTeardown a) acts" "list_all (\<lambda>a. \<not> isFailure a) acts"
  shows "flushTimer (object (runActions acts (newSystem hasWindow))) \<noteq> None \<longleftrightarrow>
         queue (object (runActions acts (newSystem hasWindow))) \<noteq> []"
  using assms
proof (induction acts rule: rev_induct)
  case Nil
  show ?case by (simp add: runActions_Nil newSystem_def newAnalytics_def)
next
  case (snoc a acts)
  from snoc.prems have na: "\<not> isTeardown a" "\<not> isFailure a"
    and rest: "list_all (\<lambda>a. \<not> isTeardown a) acts" "list_all (\<lambda>a. \<not> isFailure a) acts"
    by simp_all
  show ?case
    unfolding runActions_snoc
    by (rule step_timer_iff_queue[OF na snoc.IH[OF rest]])
qed

text \<open>Only a call of \<^verbatim>\<open>track\<close> on an empty queue arms the timer.\<close>

lemma step_arms_timer:
  assumes "\<not> isTeardown a"
    and "flushTimer (object \<sigma>) \<noteq> None \<longrightarrow> queue (object \<sigma>) \<noteq> []"
  shows "(flushTimer (object \<sigma>) = None \<and> flushTimer (object (step a \<sigma>)) \<noteq> None) \<longleftrightarrow>
         ((\<exists>arg props. a = Track arg props) \<and> queue (object \<sigma>) = [] \<and>
          queue (object (step a \<sigma>)) \<noteq> [])"
proof (cases a)
  case (Track arg props)
  show ?thesis
    by (rule track_start_cases[of arg props "object \<sigma>"])
       (use assms in \<open>auto simp: Track began_def\<close>)
next
  case Flush
  then show ?thesis
    using flush_start_clears[of "object \<sigma>"]
    by (simp add: began_def split: progress.splits)
next
  case TimerFires
  then show ?thesis
    using assms flush_start_clears[of "(object \<sigma>)\<lparr>flushTimer := None\<rparr>"]
    by (simp add: began_def timerCallback_def split: progress.splits)
next
  case (PostSettles i outcome)
  then show ?thesis by (auto simp: flush_resume_timer)
next
  case (PageUnload b)
  with assms show ?thesis by simp
next
  case (Destroy b)
  with assms show ?thesis by simp
qed

lemma flush_clears_timer:
  "flushTimer (snd (flush_start s)) = None \<and>
   flushTimer (snd (timerCallback s)) = None \<and>
   (\<forall>batch. fst (track_start arg props s) = Awaits batch \<longrightarrow>
      flushTimer (snd (track_start arg props s)) = None)"
proof (intro conjI)
  show "flushTimer (snd (flush_start s)) = None" by (simp add: flush_start_clears)
  show "flushTimer (snd (timerCallback s)) = None"
    by (simp add: timerCallback_def flush_start_clears)
  show "\<forall>batch. fst (track_start arg props s) = Awaits batch \<longrightarrow>
      flushTimer (snd (track_start arg props s)) = None"
    by (rule track_start_cases[of arg props s]) simp_all
qed


text \<open>
  Claim C3. A flush timer is to be pending whenever the queue is non-empty, armed
  when the queue goes from empty to non-empty. \<^verbatim>\<open>track\<close> does so for the first
  queued event, but the \<^verbatim>\<open>catch\<close> branch of \<^verbatim>\<open>flush\<close> does not: one event is
  tracked (the timer is armed), a flush is called (the timer is cleared, the queue is
  drained) and its POST is rejected. The event is back in the queue, which went from
  empty to non-empty, with no timer armed and nothing in flight; a further
  \<^verbatim>\<open>track\<close> call finds two events in the queue and arms no timer either.
\<close>

theorem requeued_events_have_no_timer:
  "object (runActions [Track (Str ''signup'') None] (newSystem True)) =
     \<lparr>queue = [signup], flushTimer = Some Timeout, unloadHandler = Some Listener\<rparr> \<and>
   object (runActions [Track (Str ''signup'') None, Flush] (newSystem True)) =
     \<lparr>queue = [], flushTimer = None, unloadHandler = Some Listener\<rparr> \<and>
   runActions [Track (Str ''signup'') None, Flush,
               PostSettles 0 (Inl (TransportError ''Failed to fetch''))] (newSystem True) =
     \<lparr>object = \<lparr>queue = [signup], flushTimer = None, unloadHandler = Some Listener\<rparr>,
      window = True, inflight = [], posted = [[signup]], beacons = []\<rparr> \<and>
   object (runActions [Track (Str ''signup'') None, Flush,
                       PostSettles 0 (Inl (TransportError ''Failed to fetch'')),
                       Track (Str ''later'') None] (newSystem True)) =
     \<lparr>queue = [signup, \<lparr>event_type = ''custom.later'', properties = []\<rparr>],
      flushTimer = None, unloadHandler = Some Listener\<rparr>"
  by (simp add: runActions_def began_def newSystem_def newAnalytics_def
        signup_def track_start_def trim_def isWhiteSpace_def startsWith_def
        eventNameRegex_test_def isNameChar_def BATCH_SIZE_def flush_start_def
        flush_resume_def tryBlock_def MAX_QUEUE_SIZE_def Let_def)

end
